theory Spec2Isabelle
  imports Main "HOL-Library.Sublist" "HOL-Library.AList" "HOL-Library.Word"
begin

section \<open>The catalog synchronizer \<^verbatim>\<open>update_agents_json.py\<close>\<close>

text \<open>
  The script loads a JSON array of agent records, looks for a markdown file named after each
  record's \<^verbatim>\<open>id\<close>, extracts the text after the frontmatter of that file, stores it in the
  record's \<^verbatim>\<open>prompt\<close> field and writes the array back.

  The embedding follows the script line by line. What the Python library does (reading files,
  \<^verbatim>\<open>json.load\<close>, \<^verbatim>\<open>str.split\<close>, \<^verbatim>\<open>str.strip\<close>, \<^verbatim>\<open>os.path.join\<close>) is modelled by small functions
  of the same name; every exception the script can raise is a value of \<open>py_error\<close>.
\<close>

subsection \<open>Strings\<close>

text \<open>
  A Python \<^verbatim>\<open>str\<close> is a sequence of Unicode code points, so a string is a list of code points.
  (The type \<open>char\<close> of HOL has 256 values only.) \<open>str\<close> turns an ASCII literal into such a list.
\<close>

type_synonym pystr = "nat list"

definition str :: "string \<Rightarrow> pystr" where
  "str s = map of_char s"

text \<open>
  \<^verbatim>\<open>c.isspace()\<close> for one code point: the white space of the Unicode database, which is
  what \<^verbatim>\<open>str.strip()\<close> without an argument removes. In order: tab, line feed, vertical tab,
  form feed, carriage return, the separators U+001C to U+001F, space, U+0085, U+00A0, U+1680,
  U+2000 to U+200A, U+2028, U+2029, U+202F, U+205F, U+3000.
\<close>

definition isspace :: "nat \<Rightarrow> bool" where
  "isspace c \<longleftrightarrow>
     (9 \<le> c \<and> c \<le> 13) \<or> (28 \<le> c \<and> c \<le> 32) \<or> c = 133 \<or> c = 160 \<or> c = 5760 \<or>
     (8192 \<le> c \<and> c \<le> 8202) \<or> c = 8232 \<or> c = 8233 \<or> c = 8239 \<or> c = 8287 \<or> c = 12288"

text \<open>\<^verbatim>\<open>s.strip()\<close>: white space is removed from the left end, then from the right end.\<close>

definition str_strip :: "pystr \<Rightarrow> pystr" where
  "str_strip s = rev (dropWhile isspace (rev (dropWhile isspace s)))"

text \<open>
  \<^verbatim>\<open>s.find(sep)\<close>: the lowest index at which \<open>sep\<close> starts in \<open>s\<close>, \<open>None\<close> where Python
  returns \<^verbatim>\<open>-1\<close>.
\<close>

primrec str_find :: "pystr \<Rightarrow> pystr \<Rightarrow> nat option" where
  "str_find [] sep = (if sep = [] then Some 0 else None)"
| "str_find (c # cs) sep =
     (if prefix sep (c # cs) then Some 0 else map_option Suc (str_find cs sep))"

text \<open>
  \<^verbatim>\<open>s.split(sep, maxsplit)\<close> for a non-empty separator: Python searches \<open>sep\<close> from the left,
  cuts there, goes on behind the separator, and stops after \<open>maxsplit\<close> cuts; what is left
  is the last part. (An empty separator raises \<^verbatim>\<open>ValueError\<close> in Python; the script's separator
  is the constant \<^verbatim>\<open>'---'\<close>.)
\<close>

fun str_split :: "pystr \<Rightarrow> pystr \<Rightarrow> nat \<Rightarrow> pystr list" where
  "str_split s sep 0 = [s]"
| "str_split s sep (Suc maxsplit) =
     (case str_find s sep of
        None \<Rightarrow> [s]
      | Some i \<Rightarrow> take i s # str_split (drop (i + length sep) s) sep maxsplit)"

text \<open>\<^verbatim>\<open>str(n)\<close> for a length: the decimal digits of \<open>n\<close>.\<close>

fun decimal :: "nat \<Rightarrow> pystr" where
  "decimal n = (if n < 10 then [48 + n] else decimal (n div 10) @ [48 + n mod 10])"

declare decimal.simps [simp del]

subsection \<open>JSON values, files and errors\<close>

text \<open>
  What \<^verbatim>\<open>json.load\<close> returns: \<^verbatim>\<open>None\<close>, a bool, an int, a float, a str, a list or a dict.
  A dict keeps its keys in insertion order, so it is an association list; \<open>map_of\<close> reads a
  key and \<open>AList.update\<close> assigns one (in place when the key is there, at the end otherwise),
  as a Python dict does. A float is the 64 bits of its IEEE 754 double; the script never
  inspects one.
\<close>

type_synonym pyfloat = "64 word"

datatype json =
    JNull
  | JBool bool
  | JInt int
  | JFloat pyfloat
  | JString pystr
  | JArray "json list"
  | JObject "(pystr \<times> json) list"

datatype py_error =
    FileNotFoundError
  | ReadError
  | JSONDecodeError
  | KeyError
  | TypeError
  | WriteError
  | UnicodeEncodeError

text \<open>
  A path of the file system holds nothing, a text (what \<^verbatim>\<open>f.read()\<close> returns in text mode with
  UTF-8 decoding), or something that \<^verbatim>\<open>open\<close> or \<^verbatim>\<open>read\<close> fails on (a directory, a file
  without read permission, bytes that are not UTF-8): \<open>ReadError\<close> stands for these exceptions.
\<close>

datatype fs_node = Text pystr | Unreadable

type_synonym filesystem = "pystr \<Rightarrow> fs_node option"

text \<open>
  The catalog file is kept apart from the companion files, which the script only reads.
  Its content is represented by the value \<^verbatim>\<open>json.load\<close> parses from it and \<^verbatim>\<open>json.dump\<close> writes:
  \<open>CatJSON v\<close> is a file whose text is the JSON document of \<open>v\<close>.
  \<open>writable\<close> says whether \<^verbatim>\<open>open(agents_json_path, 'w')\<close> succeeds.
\<close>

datatype catalog_file = CatMissing | CatUnreadable | CatNotJSON | CatJSON json

text \<open>
  \<^verbatim>\<open>json.load\<close> turns an escape such as \<^verbatim>\<open>\ud83d\<close> into a lone surrogate, a code point from U+D800
  to U+DFFF, which the strict UTF-8 encoder of the catalog file (line 51) refuses.
  \<^verbatim>\<open>json.dump(agents, f, indent=2, ensure_ascii=False)\<close> writes every key and every string as
  it is, so it succeeds exactly on the values without a surrogate in any of their strings.
  (A text read from a UTF-8 file never holds a surrogate: the decoder refuses the file.)
\<close>

definition surrogate :: "nat \<Rightarrow> bool" where
  "surrogate c \<longleftrightarrow> 55296 \<le> c \<and> c \<le> 57343"

definition utf8_encodable :: "pystr \<Rightarrow> bool" where
  "utf8_encodable s = list_all (\<lambda>c. \<not> surrogate c) s"

primrec dumpable :: "json \<Rightarrow> bool" where
  "dumpable JNull = True"
| "dumpable (JBool b) = True"
| "dumpable (JInt n) = True"
| "dumpable (JFloat x) = True"
| "dumpable (JString s) = utf8_encodable s"
| "dumpable (JArray xs) = list_all id (map dumpable xs)"
| "dumpable (JObject kvs) =
     list_all (\<lambda>kv. utf8_encodable (fst kv) \<and> snd kv) (map (map_prod id dumpable) kvs)"

record world =
  catalog :: catalog_file
  writable :: bool
  files :: filesystem

text \<open>
  The result of a run: the exception that ended it (\<open>None\<close> for a normal exit), the texts
  of the \<^verbatim>\<open>print\<close> calls in order, and the file system it leaves.
\<close>

record outcome =
  raised :: "py_error option"
  printed :: "pystr list"
  after :: world

definition os_path_exists :: "filesystem \<Rightarrow> pystr \<Rightarrow> bool" where
  "os_path_exists fs p \<longleftrightarrow> fs p \<noteq> None"

definition open_read :: "filesystem \<Rightarrow> pystr \<Rightarrow> py_error + pystr" where
  "open_read fs p =
     (case fs p of
        None \<Rightarrow> Inl FileNotFoundError
      | Some Unreadable \<Rightarrow> Inl ReadError
      | Some (Text content) \<Rightarrow> Inr content)"

text \<open>\<^verbatim>\<open>os.path.join(a, b)\<close> of \<^verbatim>\<open>posixpath\<close>, for two components.\<close>

definition os_path_join :: "pystr \<Rightarrow> pystr \<Rightarrow> pystr" where
  "os_path_join a b =
     (if prefix (str ''/'') b then b
      else if a = [] \<or> suffix (str ''/'') a then a @ b
      else a @ str ''/'' @ b)"

text \<open>\<^verbatim>\<open>with open(agents_json_path) as f: json.load(f)\<close>.\<close>

definition json_load :: "catalog_file \<Rightarrow> py_error + json" where
  "json_load c =
     (case c of
        CatMissing \<Rightarrow> Inl FileNotFoundError
      | CatUnreadable \<Rightarrow> Inl ReadError
      | CatNotJSON \<Rightarrow> Inl JSONDecodeError
      | CatJSON v \<Rightarrow> Inr v)"

text \<open>\<^verbatim>\<open>agent[key]\<close>: only a dict can be read with a string key.\<close>

fun getitem :: "json \<Rightarrow> pystr \<Rightarrow> py_error + json" where
  "getitem (JObject kvs) key = (case map_of kvs key of None \<Rightarrow> Inl KeyError | Some v \<Rightarrow> Inr v)"
| "getitem _ key = Inl TypeError"

text \<open>\<^verbatim>\<open>agent[key] = value\<close>.\<close>

fun setitem :: "json \<Rightarrow> pystr \<Rightarrow> json \<Rightarrow> py_error + json" where
  "setitem (JObject kvs) key v = Inr (JObject (AList.update key v kvs))"
| "setitem _ key v = Inl TypeError"

text \<open>
  \<^verbatim>\<open>for agent in agents\<close>: a list gives its elements, a dict its keys, a str its characters;
  nothing else can be iterated.
\<close>

fun iter :: "json \<Rightarrow> py_error + json list" where
  "iter (JArray xs) = Inr xs"
| "iter (JObject kvs) = Inr (map (\<lambda>kv. JString (fst kv)) kvs)"
| "iter (JString s) = Inr (map (\<lambda>c. JString [c]) s)"
| "iter _ = Inl TypeError"

text \<open>
  \<^verbatim>\<open>f"{agent['id']}"\<close>: a str is inserted as it is. For any other value Python inserts
  \<^verbatim>\<open>str(value)\<close>, which is the parameter \<open>py_str\<close> of the model.
\<close>

definition format_value :: "(json \<Rightarrow> pystr) \<Rightarrow> json \<Rightarrow> pystr" where
  "format_value py_str v = (case v of JString s \<Rightarrow> s | _ \<Rightarrow> py_str v)"

subsection \<open>The script\<close>

text \<open>
  \<^verbatim>\<open>extract_prompt_from_markdown\<close> (lines 6 to 17): the file is read, split at the first two
  occurrences of \<^verbatim>\<open>'---'\<close>, and the third part is returned stripped; with fewer than three
  parts the result is the empty string. The function \<^verbatim>\<open>escape_json_string\<close> (lines 19 to 29) is
  never called and is left out.
\<close>

definition delimiter :: pystr where
  "delimiter = str ''---''"

definition extract_prompt_from_markdown :: "filesystem \<Rightarrow> pystr \<Rightarrow> py_error + pystr" where
  "extract_prompt_from_markdown fs file_path =
     (case open_read fs file_path of
        Inl e \<Rightarrow> Inl e
      | Inr content \<Rightarrow>
          (let parts = str_split content delimiter 2 in
           if length parts \<ge> 3 then Inr (str_strip (parts ! 2)) else Inr []))"

text \<open>The constants of the script, the path of a companion file and the lines it prints.\<close>

definition agents_json_path :: pystr where
  "agents_json_path = str ''agent-gallery/src/data/agents.json''"

definition agents_dir :: pystr where
  "agents_dir = str ''agent-gallery/agents''"

definition md_file :: "(json \<Rightarrow> pystr) \<Rightarrow> json \<Rightarrow> pystr" where
  "md_file py_str ident = os_path_join agents_dir (format_value py_str ident @ str ''.md'')"

definition updated_line :: "(json \<Rightarrow> pystr) \<Rightarrow> json \<Rightarrow> pystr \<Rightarrow> pystr" where
  "updated_line py_str ident full_prompt =
     str ''Updated '' @ format_value py_str ident @ str '' - prompt length: '' @
     decimal (length full_prompt) @ str '' characters''"

definition no_content_line :: "(json \<Rightarrow> pystr) \<Rightarrow> json \<Rightarrow> pystr" where
  "no_content_line py_str ident =
     str ''Warning: No prompt content found for '' @ format_value py_str ident"

definition not_found_line :: "(json \<Rightarrow> pystr) \<Rightarrow> json \<Rightarrow> pystr" where
  "not_found_line py_str ident =
     str ''Warning: Markdown file not found for '' @ format_value py_str ident"

definition success_line :: pystr where
  "success_line = 10 # str ''Successfully updated '' @ agents_json_path"

text \<open>
  The body of the loop for one \<open>agent\<close>: the agent as the iteration leaves it and the line it
  prints, or the exception it raises. \<^verbatim>\<open>agent['id']\<close> is evaluated again for the message, after
  the assignment to \<^verbatim>\<open>agent['prompt']\<close>.
\<close>

definition update_agent :: "(json \<Rightarrow> pystr) \<Rightarrow> filesystem \<Rightarrow> json \<Rightarrow> py_error + json \<times> pystr" where
  "update_agent py_str fs agent =
     (case getitem agent (str ''id'') of
        Inl e \<Rightarrow> Inl e
      | Inr ident \<Rightarrow>
          if os_path_exists fs (md_file py_str ident) then
            (case extract_prompt_from_markdown fs (md_file py_str ident) of
               Inl e \<Rightarrow> Inl e
             | Inr full_prompt \<Rightarrow>
                 if full_prompt \<noteq> [] then
                   (case setitem agent (str ''prompt'') (JString full_prompt) of
                      Inl e \<Rightarrow> Inl e
                    | Inr agent' \<Rightarrow>
                        (case getitem agent' (str ''id'') of
                           Inl e \<Rightarrow> Inl e
                         | Inr ident' \<Rightarrow> Inr (agent', updated_line py_str ident' full_prompt)))
                 else Inr (agent, no_content_line py_str ident))
          else Inr (agent, not_found_line py_str ident))"

text \<open>
  The loop over the agents. An exception ends it; the lines printed before stay printed.
\<close>

fun update_agents ::
  "(json \<Rightarrow> pystr) \<Rightarrow> filesystem \<Rightarrow> json list \<Rightarrow> (py_error + json list) \<times> pystr list" where
  "update_agents py_str fs [] = (Inr [], [])"
| "update_agents py_str fs (agent # rest) =
     (case update_agent py_str fs agent of
        Inl e \<Rightarrow> (Inl e, [])
      | Inr (agent', line) \<Rightarrow>
          (case update_agents py_str fs rest of
             (Inl e, out) \<Rightarrow> (Inl e, line # out)
           | (Inr rest', out) \<Rightarrow> (Inr (agent' # rest'), line # out)))"

text \<open>
  What \<^verbatim>\<open>agents\<close> is after the loop: a list holds the agents as the loop left them; a dict or
  a str was iterated over its keys or characters and is itself unchanged.
\<close>

definition agents_after :: "json \<Rightarrow> json list \<Rightarrow> json" where
  "agents_after agents items = (case agents of JArray _ \<Rightarrow> JArray items | _ \<Rightarrow> agents)"

text \<open>
  The whole script (lines 31 to 54). The catalog is opened for writing only after the loop has
  ended without an exception. \<^verbatim>\<open>open(agents_json_path, 'w')\<close> empties the file; \<^verbatim>\<open>json.dump\<close> then
  writes the document piece by piece. When a string cannot be encoded, the write of that piece
  raises \<open>UnicodeEncodeError\<close> and the file keeps what was written before: a beginning of a
  document that is cut off, which is not JSON. Standard output is taken to accept every line.
\<close>

definition update_agents_json :: "(json \<Rightarrow> pystr) \<Rightarrow> world \<Rightarrow> outcome" where
  "update_agents_json py_str w =
     (case json_load (catalog w) of
        Inl e \<Rightarrow> \<lparr>raised = Some e, printed = [], after = w\<rparr>
      | Inr agents \<Rightarrow>
          (case iter agents of
             Inl e \<Rightarrow> \<lparr>raised = Some e, printed = [], after = w\<rparr>
           | Inr items \<Rightarrow>
               (case update_agents py_str (files w) items of
                  (Inl e, out) \<Rightarrow> \<lparr>raised = Some e, printed = out, after = w\<rparr>
                | (Inr items', out) \<Rightarrow>
                    if \<not> writable w then
                      \<lparr>raised = Some WriteError, printed = out, after = w\<rparr>
                    else if dumpable (agents_after agents items') then
                      \<lparr>raised = None, printed = out @ [success_line],
                       after = w\<lparr>catalog := CatJSON (agents_after agents items')\<rparr>\<rparr>
                    else
                      \<lparr>raised = Some UnicodeEncodeError, printed = out,
                       after = w\<lparr>catalog := CatNotJSON\<rparr>\<rparr>)))"

subsection \<open>Notions for stating the properties\<close>

text \<open>
  Occurrences of the delimiter are counted as \<^verbatim>\<open>str.count\<close> and \<^verbatim>\<open>str.split\<close> count them: from
  the left and without overlap. \<open>delimited content a b c\<close> says that \<open>content\<close> reads \<open>a\<close>, the
  first occurrence of the delimiter, \<open>b\<close>, the second occurrence, \<open>c\<close>: no occurrence starts
  inside \<open>a\<close> and none starts inside \<open>b\<close>. So \<open>c\<close> is the text that follows the second occurrence.
\<close>

definition delimited :: "pystr \<Rightarrow> pystr \<Rightarrow> pystr \<Rightarrow> pystr \<Rightarrow> bool" where
  "delimited content a b c \<longleftrightarrow>
     content = a @ delimiter @ b @ delimiter @ c \<and>
     \<not> sublist delimiter (a @ butlast delimiter) \<and>
     \<not> sublist delimiter (b @ butlast delimiter)"


subsection \<open>Example catalogs and companion files\<close>

text \<open>
  In the examples every \<^verbatim>\<open>id\<close> is a str, so \<^verbatim>\<open>str(value)\<close> is never needed; \<open>no_str\<close> is passed
  for it.
\<close>

definition no_str :: "json \<Rightarrow> pystr" where
  "no_str v = []"

definition agent_record :: "string \<Rightarrow> string \<Rightarrow> json" where
  "agent_record ident prompt =
     JObject [(str ''id'', JString (str ident)), (str ''prompt'', JString (str prompt))]"

definition alpha_md :: pystr where
  "alpha_md = str ''agent-gallery/agents/alpha.md''"

definition ex_world :: "json \<Rightarrow> pystr \<Rightarrow> world" where
  "ex_world agents content =
     \<lparr>catalog = CatJSON agents, writable = True, files = Map.empty(alpha_md \<mapsto> Text content)\<rparr>"

text \<open>The example of the specification: \<^verbatim>\<open>alpha.md\<close> with a frontmatter and a body.\<close>

definition hello_md :: pystr where
  "hello_md = str ''---\<newline>title: x\<newline>---\<newline>Hello world.\<newline>''"

definition ex_alpha :: world where
  "ex_alpha = ex_world (JArray [agent_record ''alpha'' ''old'']) hello_md"

text \<open>A companion file with nothing but a line break after the frontmatter.\<close>

definition blank_md :: pystr where
  "blank_md = str ''---\<newline>title: x\<newline>---\<newline>''"

definition ex_blank :: world where
  "ex_blank = ex_world (JArray [agent_record ''alpha'' ''old'']) blank_md"

text \<open>Two records; \<^verbatim>\<open>alpha\<close> has a field more, \<^verbatim>\<open>beta\<close> has no companion file.\<close>

definition alpha_full :: "string \<Rightarrow> json" where
  "alpha_full prompt =
     JObject [(str ''id'', JString (str ''alpha'')), (str ''prompt'', JString (str prompt)),
              (str ''name'', JString (str ''Alpha''))]"




text \<open>A companion file with a third delimiter, and one with text before the first.\<close>

definition three_md :: pystr where
  "three_md = str ''---\<newline>t\<newline>---\<newline>A\<newline>---\<newline>B\<newline>''"

definition junk_md :: pystr where
  "junk_md = str ''junk\<newline>---\<newline>t\<newline>---\<newline>Body\<newline>''"

text \<open>Runs that fail: no catalog, a catalog that is not JSON, an unreadable companion file,
  a record without \<^verbatim>\<open>id\<close> and an element that is no record.\<close>

definition ex_missing :: world where
  "ex_missing = \<lparr>catalog = CatMissing, writable = True, files = Map.empty\<rparr>"

definition ex_not_json :: world where
  "ex_not_json = \<lparr>catalog = CatNotJSON, writable = True, files = Map.empty\<rparr>"

definition ex_unreadable :: world where
  "ex_unreadable =
     \<lparr>catalog = CatJSON (JArray [agent_record ''beta'' ''keep-me'', agent_record ''alpha'' ''old'']),
      writable = True, files = Map.empty(alpha_md \<mapsto> Unreadable)\<rparr>"

definition ex_no_id :: world where
  "ex_no_id =
     ex_world (JArray [agent_record ''alpha'' ''old'', JObject [(str ''prompt'', JString (str ''x''))]])
       hello_md"

definition ex_no_record :: world where
  "ex_no_record = ex_world (JArray [JString (str ''alpha'')]) hello_md"

text \<open>
  Catalogs with the lone surrogate U+D83D, which the catalog file holds as the escape
  \<^verbatim>\<open>\ud83d\<close>: the prompt of a record \<^verbatim>\<open>beta\<close> without companion file, alone and behind a record
  \<^verbatim>\<open>alpha\<close>, and the prompt of a record \<^verbatim>\<open>alpha\<close> whose companion file has no delimiter.
\<close>

definition surrogate_record :: "string \<Rightarrow> json" where
  "surrogate_record ident =
     JObject [(str ''id'', JString (str ident)), (str ''prompt'', JString [55357])]"

definition ex_surrogate :: world where
  "ex_surrogate =
     \<lparr>catalog = CatJSON (JArray [surrogate_record ''beta'']), writable = True,
      files = Map.empty\<rparr>"



section \<open>Properties of the library functions\<close>

subsection \<open>Finding and splitting\<close>

lemma str_find_None: "str_find s d = None \<longleftrightarrow> \<not> sublist d s"
  by (induction s) (auto simp: sublist_Cons_right)

lemma str_find_Some_decomp:
  "str_find s d = Some i \<Longrightarrow> s = take i s @ d @ drop (i + length d) s"
proof (induction s arbitrary: i)
  case Nil
  then show ?case by (simp split: if_splits)
next
  case (Cons c cs)
  show ?case
  proof (cases "prefix d (c # cs)")
    case True
    then show ?thesis using Cons.prems by (auto simp: prefix_def)
  next
    case False
    then obtain j where "str_find cs d = Some j" "i = Suc j" using Cons.prems by auto
    then show ?thesis using Cons.IH[of j] by simp
  qed
qed

lemma prefix_short: "prefix d (u @ v) \<Longrightarrow> length d \<le> length u \<Longrightarrow> prefix d u"
  by (auto simp: prefix_append)

lemma str_find_at:
  assumes "d \<noteq> []" "\<not> sublist d (a @ butlast d)"
  shows "str_find (a @ d @ r) d = Some (length a)"
  using assms
proof (induction a)
  case Nil
  then show ?case by (cases d) auto
next
  case (Cons x a)
  have "\<not> prefix d (x # a @ d @ r)"
  proof
    assume "prefix d (x # a @ d @ r)"
    moreover have "x # a @ d @ r = (x # a @ butlast d) @ (last d # r)"
      using Cons.prems(1) by simp
    ultimately have "prefix d (x # a @ butlast d)"
      using prefix_short[of d "x # a @ butlast d" "last d # r"] by simp
    then show False using Cons.prems(2) by (simp add: sublist_Cons_right)
  qed
  then show ?case using Cons by (simp add: sublist_Cons_right)
qed

lemma str_find_leftmost:
  assumes "d \<noteq> []" "str_find s d = Some i"
  shows "\<not> sublist d (take i s @ butlast d)"
  using assms
proof (induction s arbitrary: i)
  case Nil
  then show ?case by simp
next
  case (Cons c cs)
  show ?case
  proof (cases "prefix d (c # cs)")
    case True
    then have "i = 0" using Cons.prems by simp
    moreover have "\<not> sublist d (butlast d)"
      using Cons.prems(1) sublist_length_le[of d "butlast d"] by (cases d) auto
    ultimately show ?thesis by simp
  next
    case False
    then obtain j where j: "str_find cs d = Some j" "i = Suc j" using Cons.prems by auto
    have ih: "\<not> sublist d (take j cs @ butlast d)" using Cons.IH[OF Cons.prems(1) j(1)] .
    have "prefix (c # take j cs @ butlast d) (c # cs)"
    proof -
      have "cs = take j cs @ d @ drop (j + length d) cs" using str_find_Some_decomp[OF j(1)] .
      moreover have "d = butlast d @ [last d]" using Cons.prems(1) by simp
      ultimately have "cs = (take j cs @ butlast d) @ (last d # drop (j + length d) cs)"
        by (metis append.assoc append_Cons append_Nil)
      then show ?thesis by (metis Cons_prefix_Cons prefixI)
    qed
    then have "\<not> prefix d (c # take j cs @ butlast d)"
      using False prefix_order.trans by blast
    then show ?thesis using ih j by (simp add: sublist_Cons_right)
  qed
qed

lemma str_split_two:
  assumes "d \<noteq> []" "\<not> sublist d (a @ butlast d)" "\<not> sublist d (b @ butlast d)"
  shows "str_split (a @ d @ b @ d @ c) d 2 = [a, b, c]"
proof -
  have 1: "str_find (a @ d @ b @ d @ c) d = Some (length a)"
    using str_find_at[OF assms(1,2)] by simp
  have 2: "str_find (b @ d @ c) d = Some (length b)"
    using str_find_at[OF assms(1,3)] by simp
  show ?thesis by (simp add: numeral_2_eq_2 1 2)
qed


lemma str_find_bound: "str_find s d = Some i \<Longrightarrow> i + length d \<le> length s"
proof (induction s arbitrary: i)
  case Nil
  then show ?case by (simp split: if_splits)
next
  case (Cons c cs)
  show ?case
  proof (cases "prefix d (c # cs)")
    case True
    then show ?thesis using Cons.prems prefix_length_le[of d "c # cs"] by simp
  next
    case False
    then obtain j where "str_find cs d = Some j" "i = Suc j" using Cons.prems by auto
    then show ?thesis using Cons.IH[of j] by simp
  qed
qed

lemma str_find_prefix:
  assumes "d \<noteq> []" "str_find s d = Some i"
  shows "prefix (take i s @ butlast d) s"
proof -
  have "s = take i s @ d @ drop (i + length d) s" using str_find_Some_decomp[OF assms(2)] .
  moreover have "d = butlast d @ [last d]" using assms(1) by simp
  ultimately have "s = (take i s @ butlast d) @ (last d # drop (i + length d) s)"
    by (metis append.assoc append_Cons append_Nil)
  then show ?thesis by (metis prefixI)
qed

lemma str_find_le:
  assumes "d \<noteq> []" "str_find (a @ d @ r) d = Some i"
  shows "i \<le> length a"
proof (rule ccontr)
  assume "\<not> i \<le> length a"
  then have lt: "length a < i" by simp
  let ?s = "a @ d @ r"
  have il: "i \<le> length ?s"
    using str_find_bound[OF assms(2)] by simp
  have p1: "prefix (take i ?s @ butlast d) ?s" using str_find_prefix[OF assms] .
  have p2: "prefix (a @ d) ?s" by (metis append.assoc prefixI)
  have "length (take i ?s) = i" using il by (simp only: length_take min_absorb2)
  moreover have "length (butlast d) = length d - 1" by simp
  moreover have "0 < length d" using assms(1) by simp
  ultimately have "length (a @ d) \<le> length (take i ?s @ butlast d)"
    using lt unfolding length_append by linarith
  with p2 p1 have "prefix (a @ d) (take i ?s @ butlast d)"
    by (rule prefix_length_prefix)
  then obtain z where "take i ?s @ butlast d = a @ d @ z"
    by (auto simp: prefix_def)
  then have "sublist d (take i ?s @ butlast d)"
    unfolding sublist_def by blast
  then show False using str_find_leftmost[OF assms] by simp
qed

lemma str_split_twice_iff:
  assumes "d \<noteq> []"
  shows "3 \<le> length (str_split s d 2) \<longleftrightarrow> (\<exists>a b c. s = a @ d @ b @ d @ c)"
proof
  assume len: "3 \<le> length (str_split s d 2)"
  then obtain i where i: "str_find s d = Some i"
    by (cases "str_find s d") (auto simp: numeral_2_eq_2)
  let ?rest = "drop (i + length d) s"
  from len i obtain k where k: "str_find ?rest d = Some k"
    by (cases "str_find ?rest d") (auto simp: numeral_2_eq_2)
  have "s = take i s @ d @ ?rest" using str_find_Some_decomp[OF i] .
  moreover have "?rest = take k ?rest @ d @ drop (k + length d) ?rest"
    using str_find_Some_decomp[OF k] .
  ultimately have "s = take i s @ d @ take k ?rest @ d @ drop (k + length d) ?rest"
    by simp
  then show "\<exists>a b c. s = a @ d @ b @ d @ c" by blast
next
  assume "\<exists>a b c. s = a @ d @ b @ d @ c"
  then obtain a b c where s: "s = a @ d @ b @ d @ c" by blast
  have "sublist d s" unfolding s by simp
  then obtain i where i: "str_find s d = Some i"
    using str_find_None[of s d] by (cases "str_find s d") auto
  have "i \<le> length a" using str_find_le[OF assms, of a "b @ d @ c" i] i s by simp
  then have "drop (i + length d) s = drop (i + length d) (a @ d) @ b @ d @ c"
    unfolding s by simp
  then have "sublist d (drop (i + length d) s)"
    by (metis sublist_appendI append.assoc)
  then obtain k where k: "str_find (drop (i + length d) s) d = Some k"
    using str_find_None[of "drop (i + length d) s" d]
    by (cases "str_find (drop (i + length d) s) d") auto
  show "3 \<le> length (str_split s d 2)"
    by (simp add: numeral_2_eq_2 i k)
qed

subsection \<open>Stripping\<close>

lemma str_strip_decomp:
  "\<exists>l r. s = l @ str_strip s @ r \<and> (\<forall>x\<in>set l. isspace x) \<and> (\<forall>x\<in>set r. isspace x)"
proof -
  let ?t = "dropWhile isspace s"
  let ?l = "takeWhile isspace s"
  let ?r = "rev (takeWhile isspace (rev ?t))"
  have "rev (rev ?t) = rev (takeWhile isspace (rev ?t) @ dropWhile isspace (rev ?t))"
    by (simp only: takeWhile_dropWhile_id)
  then have t: "?t = str_strip s @ ?r"
    by (simp only: rev_append rev_rev_ident str_strip_def)
  have "s = ?l @ ?t" by (simp only: takeWhile_dropWhile_id)
  with t have "s = ?l @ str_strip s @ ?r" by (simp only:)
  moreover have "\<forall>x\<in>set ?l. isspace x" by (auto dest: set_takeWhileD)
  moreover have "\<forall>x\<in>set ?r. isspace x" by (auto dest: set_takeWhileD)
  ultimately show ?thesis by blast
qed

lemma str_strip_ends:
  assumes "str_strip s \<noteq> []"
  shows "\<not> isspace (hd (str_strip s))" "\<not> isspace (last (str_strip s))"
proof -
  let ?t = "dropWhile isspace s"
  let ?u = "dropWhile isspace (rev ?t)"
  have u: "?u \<noteq> []" using assms by (simp add: str_strip_def)
  have t: "?t \<noteq> []"
  proof
    assume "?t = []"
    then have "?u = []" by (simp only: rev.simps dropWhile.simps)
    then show False using u by (simp only:)
  qed
  have hd_t: "\<not> isspace (hd ?t)" using t by (rule hd_dropWhile)
  have "last (str_strip s) = hd ?u" using u by (simp add: str_strip_def last_rev)
  then show "\<not> isspace (last (str_strip s))" using hd_dropWhile[OF u] by simp
  have "hd (str_strip s) = last ?u" using u by (simp add: str_strip_def hd_rev)
  also have "\<dots> = last (rev ?t)"
  proof (rule dropWhile_last)
    show "hd ?t \<in> set (rev ?t)" using t by simp
    show "\<not> isspace (hd ?t)" by (rule hd_t)
  qed
  also have "\<dots> = hd ?t" using t by (simp add: last_rev)
  finally show "\<not> isspace (hd (str_strip s))" using hd_t by simp
qed

lemma str_strip_Nil_iff: "str_strip s = [] \<longleftrightarrow> (\<forall>x\<in>set s. isspace x)"
proof
  assume "str_strip s = []"
  then have "\<forall>x\<in>set (dropWhile isspace s). isspace x" by (simp add: str_strip_def)
  moreover have "dropWhile isspace s \<noteq> [] \<Longrightarrow> \<not> isspace (hd (dropWhile isspace s))"
    by (rule hd_dropWhile)
  moreover have "dropWhile isspace s \<noteq> [] \<Longrightarrow> hd (dropWhile isspace s) \<in> set (dropWhile isspace s)"
    by (rule hd_in_set)
  ultimately have "dropWhile isspace s = []" by blast
  then show "\<forall>x\<in>set s. isspace x" by simp
next
  assume "\<forall>x\<in>set s. isspace x"
  then have "dropWhile isspace s = []" by simp
  then show "str_strip s = []" by (simp only: str_strip_def rev.simps dropWhile.simps)
qed

lemma dropWhile_keeps_sublist:
  assumes "sublist (y # ys) c" "\<not> P y"
  shows "sublist (y # ys) (dropWhile P c)"
proof -
  from assms(1) obtain p q where "c = p @ (y # ys) @ q" by (auto simp: sublist_def)
  then have "dropWhile P c = dropWhile P p @ (y # ys) @ q"
    using assms(2) by (simp add: dropWhile_append3)
  then show ?thesis by (metis sublist_appendI)
qed

lemma str_strip_keeps_sublist:
  assumes "sublist d c" "d \<noteq> []" "\<not> isspace (hd d)" "\<not> isspace (last d)"
  shows "sublist d (str_strip c)"
proof -
  obtain y ys where d: "d = y # ys" using assms(2) by (cases d) auto
  obtain z zs where rd: "rev d = z # zs" using assms(2) by (cases "rev d") auto
  have z: "z = last d" using rd assms(2) by (metis hd_rev list.sel(1))
  have "sublist d (dropWhile isspace c)"
    using dropWhile_keeps_sublist[of y ys c isspace] assms(1,3) d by simp
  then have "sublist (rev d) (rev (dropWhile isspace c))" by simp
  then have "sublist (z # zs) (rev (dropWhile isspace c))" by (simp only: rd)
  moreover have "\<not> isspace z" using assms(4) z by simp
  ultimately have "sublist (z # zs) (dropWhile isspace (rev (dropWhile isspace c)))"
    by (rule dropWhile_keeps_sublist)
  then have "sublist (rev d) (dropWhile isspace (rev (dropWhile isspace c)))"
    by (simp only: rd)
  then show ?thesis unfolding str_strip_def by (simp only: sublist_rev_right rev_rev_ident)
qed

lemma str_strip_fixed:
  assumes "\<not> isspace (hd s)" "\<not> isspace (last s)"
  shows "str_strip s = s"
proof (cases "s = []")
  case True
  then show ?thesis by (simp add: str_strip_def)
next
  case False
  have 1: "dropWhile isspace s = s"
    using assms(1) by (simp add: dropWhile_eq_self_iff)
  have "hd (rev s) = last s" using False by (simp add: hd_rev)
  then have 2: "dropWhile isspace (rev s) = rev s"
    using assms(2) by (simp add: dropWhile_eq_self_iff)
  show ?thesis by (simp add: str_strip_def 1 2)
qed

section \<open>Properties of the script\<close>

subsection \<open>Extraction\<close>

lemma delimiter_eq: "delimiter = [45, 45, 45]"
  by (simp add: delimiter_def str_def)

lemma id_neq_prompt: "str ''id'' \<noteq> str ''prompt''"
  by (simp add: str_def)

lemma getitem_Inr:
  "getitem agent key = Inr v \<Longrightarrow> \<exists>kvs. agent = JObject kvs \<and> map_of kvs key = Some v"
  by (cases agent) (auto split: option.splits)

lemma extract_unreadable:
  "fs p = Some Unreadable \<Longrightarrow> extract_prompt_from_markdown fs p = Inl ReadError"
  by (simp add: extract_prompt_from_markdown_def open_read_def)

lemma extract_delimited:
  assumes "fs p = Some (Text content)" "delimited content a b c"
  shows "extract_prompt_from_markdown fs p = Inr (str_strip c)"
proof -
  have "delimiter \<noteq> []" by (simp add: delimiter_eq)
  then have "str_split content delimiter 2 = [a, b, c]"
    using assms(2) str_split_two[of delimiter a b c] by (simp add: delimited_def)
  then show ?thesis
    using assms(1) by (simp add: extract_prompt_from_markdown_def open_read_def)
qed


lemma extract_text_total:
  "fs p = Some (Text content) \<Longrightarrow> \<exists>body. extract_prompt_from_markdown fs p = Inr body"
  by (simp add: extract_prompt_from_markdown_def open_read_def Let_def)

lemma extract_stripped:
  assumes "extract_prompt_from_markdown fs p = Inr body" "body \<noteq> []"
  shows "\<not> isspace (hd body) \<and> \<not> isspace (last body)"
proof -
  from assms obtain s where "body = str_strip s"
    by (auto simp: extract_prompt_from_markdown_def Let_def split: sum.splits if_splits)
  then show ?thesis using assms(2) str_strip_ends[of s] by simp
qed

lemma delimited_exists:
  assumes "content = a @ delimiter @ b @ delimiter @ c"
  shows "\<exists>a' b' c'. delimited content a' b' c'"
proof -
  have ne: "delimiter \<noteq> []" by (simp add: delimiter_eq)
  have len: "3 \<le> length (str_split content delimiter 2)"
    using str_split_twice_iff[OF ne, of content] assms by blast
  then obtain i where i: "str_find content delimiter = Some i"
    by (cases "str_find content delimiter") (auto simp: numeral_2_eq_2)
  let ?rest = "drop (i + length delimiter) content"
  from len i obtain k where k: "str_find ?rest delimiter = Some k"
    by (cases "str_find ?rest delimiter") (auto simp: numeral_2_eq_2)
  have "content = take i content @ delimiter @ ?rest" using str_find_Some_decomp[OF i] .
  moreover have "?rest = take k ?rest @ delimiter @ drop (k + length delimiter) ?rest"
    using str_find_Some_decomp[OF k] .
  ultimately have "content = take i content @ delimiter @ take k ?rest @ delimiter @ drop (k + length delimiter) ?rest"
    by simp
  then have "delimited content (take i content) (take k ?rest) (drop (k + length delimiter) ?rest)"
    unfolding delimited_def
    using str_find_leftmost[OF ne i] str_find_leftmost[OF ne k] by blast
  then show ?thesis by blast
qed

lemma delimited_unique:
  assumes "delimited content a b c" "delimited content a' b' c'"
  shows "a' = a \<and> b' = b \<and> c' = c"
proof -
  have ne: "delimiter \<noteq> []" by (simp add: delimiter_eq)
  have "str_split content delimiter 2 = [a, b, c]"
    using assms(1) str_split_two[OF ne, of a b c] by (simp add: delimited_def)
  moreover have "str_split content delimiter 2 = [a', b', c']"
    using assms(2) str_split_two[OF ne, of a' b' c'] by (simp add: delimited_def)
  ultimately show ?thesis by simp
qed

subsection \<open>One iteration of the loop\<close>

lemma update_agent_no_id:
  "getitem agent (str ''id'') = Inl e \<Longrightarrow> update_agent py_str fs agent = Inl e"
  by (simp add: update_agent_def)

lemma update_agent_not_found:
  assumes "getitem agent (str ''id'') = Inr ident" "fs (md_file py_str ident) = None"
  shows "update_agent py_str fs agent = Inr (agent, not_found_line py_str ident)"
  using assms by (simp add: update_agent_def os_path_exists_def)

lemma update_agent_unreadable:
  assumes "getitem agent (str ''id'') = Inr ident" "fs (md_file py_str ident) = Some Unreadable"
  shows "update_agent py_str fs agent = Inl ReadError"
  using assms by (simp add: update_agent_def os_path_exists_def extract_unreadable)

lemma update_agent_empty:
  assumes "getitem agent (str ''id'') = Inr ident"
    "fs (md_file py_str ident) = Some (Text content)"
    "extract_prompt_from_markdown fs (md_file py_str ident) = Inr []"
  shows "update_agent py_str fs agent = Inr (agent, no_content_line py_str ident)"
  using assms by (simp add: update_agent_def os_path_exists_def)

lemma update_agent_assign:
  assumes "getitem agent (str ''id'') = Inr ident"
    "fs (md_file py_str ident) = Some (Text content)"
    "extract_prompt_from_markdown fs (md_file py_str ident) = Inr body" "body \<noteq> []"
  shows "\<exists>kvs. agent = JObject kvs \<and>
    update_agent py_str fs agent =
      Inr (JObject (AList.update (str ''prompt'') (JString body) kvs),
           updated_line py_str ident body)"
proof -
  from getitem_Inr[OF assms(1)] obtain kvs
    where kvs: "agent = JObject kvs" "map_of kvs (str ''id'') = Some ident" by blast
  have "map_of (AList.update (str ''prompt'') (JString body) kvs) (str ''id'') = Some ident"
    using kvs(2) id_neq_prompt by (simp add: update_conv')
  then show ?thesis
    using assms kvs by (simp add: update_agent_def os_path_exists_def)
qed

lemma update_agent_cases:
  assumes "update_agent py_str fs agent = Inr (agent', line)"
  shows "(agent' = agent \<and>
           (\<exists>ident. getitem agent (str ''id'') = Inr ident \<and>
              (line = not_found_line py_str ident \<or> line = no_content_line py_str ident))) \<or>
         (\<exists>kvs ident body. agent = JObject kvs \<and>
            getitem agent (str ''id'') = Inr ident \<and>
            extract_prompt_from_markdown fs (md_file py_str ident) = Inr body \<and> body \<noteq> [] \<and>
            agent' = JObject (AList.update (str ''prompt'') (JString body) kvs) \<and>
            line = updated_line py_str ident body)"
proof -
  from assms obtain ident where ident: "getitem agent (str ''id'') = Inr ident"
    by (cases "getitem agent (str ''id'')") (auto simp: update_agent_def)
  show ?thesis
  proof (cases "fs (md_file py_str ident)")
    case None
    then show ?thesis using assms ident update_agent_not_found[where fs = fs, OF ident None] by auto
  next
    case (Some node)
    show ?thesis
    proof (cases node)
      case Unreadable
      then show ?thesis using assms Some update_agent_unreadable[where fs = fs, OF ident] by simp
    next
      case (Text content)
      with Some have f: "fs (md_file py_str ident) = Some (Text content)" by simp
      from extract_text_total[where fs = fs, OF f] obtain body
        where body: "extract_prompt_from_markdown fs (md_file py_str ident) = Inr body" by blast
      show ?thesis
      proof (cases "body = []")
        case True
        then show ?thesis using assms ident update_agent_empty[where fs = fs, OF ident f] body by auto
      next
        case False
        from update_agent_assign[where fs = fs, OF ident f body False] obtain kvs where
          "agent = JObject kvs"
          "update_agent py_str fs agent =
             Inr (JObject (AList.update (str ''prompt'') (JString body) kvs),
                  updated_line py_str ident body)" by blast
        then show ?thesis using assms ident body False by auto
      qed
    qed
  qed
qed


lemma update_agent_idem:
  assumes "update_agent py_str fs agent = Inr (agent', line)"
  shows "update_agent py_str fs agent' = Inr (agent', line)"
proof -
  consider "agent' = agent"
    | kvs ident body where "agent = JObject kvs" "getitem agent (str ''id'') = Inr ident"
        "extract_prompt_from_markdown fs (md_file py_str ident) = Inr body" "body \<noteq> []"
        "agent' = JObject (AList.update (str ''prompt'') (JString body) kvs)"
        "line = updated_line py_str ident body"
    using update_agent_cases[OF assms] by blast
  then show ?thesis
  proof cases
    case 1
    then show ?thesis using assms by simp
  next
    case h: (2 kvs ident body)
  have "map_of kvs (str ''id'') = Some ident"
    using h(1,2) by (simp split: option.splits)
  then have g: "getitem agent' (str ''id'') = Inr ident"
    using h(5) id_neq_prompt by (simp add: update_conv')
  have ex: "os_path_exists fs (md_file py_str ident)"
    using h(3,4)
    by (auto simp: os_path_exists_def extract_prompt_from_markdown_def open_read_def
        split: option.splits)
  show ?thesis
    using g ex h(3,4,5,6) by (simp add: update_agent_def)
  qed
qed

subsection \<open>The loop\<close>

lemma update_agents_Inr:
  "update_agents py_str fs xs = (Inr ys, out) \<Longrightarrow>
     length ys = length xs \<and> length out = length xs \<and>
     (\<forall>i<length xs. update_agent py_str fs (xs ! i) = Inr (ys ! i, out ! i))"
proof (induction xs arbitrary: ys out)
  case Nil
  then show ?case by simp
next
  case (Cons x xs)
  from Cons.prems obtain y l where step: "update_agent py_str fs x = Inr (y, l)"
    by (cases "update_agent py_str fs x") auto
  from Cons.prems step obtain ys' out' where
    rest: "update_agents py_str fs xs = (Inr ys', out')" and ys: "ys = y # ys'" and out: "out = l # out'"
    by (auto split: prod.splits sum.splits)
  from Cons.IH[OF rest] show ?case
    using step ys out by (auto simp: nth_Cons split: nat.splits)
qed

lemma update_agents_Inl:
  "update_agents py_str fs xs = (Inl e, out) \<Longrightarrow>
     length out < length xs \<and> update_agent py_str fs (xs ! length out) = Inl e \<and>
     (\<forall>i<length out. \<exists>y. update_agent py_str fs (xs ! i) = Inr (y, out ! i))"
proof (induction xs arbitrary: out)
  case Nil
  then show ?case by simp
next
  case (Cons x xs)
  show ?case
  proof (cases "update_agent py_str fs x")
    case (Inl e')
    then show ?thesis using Cons.prems by simp
  next
    case (Inr r)
    then obtain y l where step: "update_agent py_str fs x = Inr (y, l)" by (cases r) auto
    from Cons.prems step obtain out' where
      rest: "update_agents py_str fs xs = (Inl e, out')" and out: "out = l # out'"
      by (auto split: prod.splits sum.splits)
    from Cons.IH[OF rest] show ?thesis
      using step out by (auto simp: nth_Cons split: nat.splits)
  qed
qed

lemma update_agents_all_Inr:
  assumes "\<forall>i<length xs. \<exists>r. update_agent py_str fs (xs ! i) = Inr r"
  shows "\<exists>ys out. update_agents py_str fs xs = (Inr ys, out)"
proof (cases "update_agents py_str fs xs")
  case (Pair r out)
  show ?thesis
  proof (cases r)
    case (Inl e)
    with Pair update_agents_Inl[of py_str fs xs e out] assms show ?thesis by auto
  next
    case (Inr ys)
    with Pair show ?thesis by simp
  qed
qed

lemma update_agents_raises:
  assumes "i < length xs" "update_agent py_str fs (xs ! i) = Inl e"
  shows "\<exists>e' out. update_agents py_str fs xs = (Inl e', out) \<and> length out \<le> i"
proof (cases "update_agents py_str fs xs")
  case (Pair r out)
  show ?thesis
  proof (cases r)
    case (Inl e')
    have "length out \<le> i"
    proof (rule ccontr)
      assume "\<not> length out \<le> i"
      then have "i < length out" by simp
      with Pair Inl update_agents_Inl[of py_str fs xs e' out] assms(2) show False by auto
    qed
    with Pair Inl show ?thesis by simp
  next
    case (Inr ys)
    with Pair update_agents_Inr[of py_str fs xs ys out] assms show ?thesis by auto
  qed
qed

lemma update_agents_append:
  assumes "update_agents py_str fs pre = (Inr pre', out)"
  shows "update_agents py_str fs (pre @ rest) =
     (case update_agents py_str fs rest of
        (Inl e, out') \<Rightarrow> (Inl e, out @ out')
      | (Inr rest', out') \<Rightarrow> (Inr (pre' @ rest'), out @ out'))"
  using assms
proof (induction pre arbitrary: pre' out)
  case Nil
  then show ?case by (auto split: prod.splits sum.splits)
next
  case (Cons x xs)
  from Cons.prems obtain y l where step: "update_agent py_str fs x = Inr (y, l)"
    by (cases "update_agent py_str fs x") auto
  from Cons.prems step obtain ys' out' where
    r: "update_agents py_str fs xs = (Inr ys', out')" and ys: "pre' = y # ys'" and out: "out = l # out'"
    by (auto split: prod.splits sum.splits)
  show ?case using Cons.IH[OF r] step ys out
    by (auto split: prod.splits sum.splits)
qed

lemma update_agents_idem:
  "update_agents py_str fs xs = (Inr ys, out) \<Longrightarrow> update_agents py_str fs ys = (Inr ys, out)"
proof (induction xs arbitrary: ys out)
  case Nil
  then show ?case by simp
next
  case (Cons x xs)
  from Cons.prems obtain y l where step: "update_agent py_str fs x = Inr (y, l)"
    by (cases "update_agent py_str fs x") auto
  from Cons.prems step obtain ys' out' where
    rest: "update_agents py_str fs xs = (Inr ys', out')" and ys: "ys = y # ys'" and out: "out = l # out'"
    by (auto split: prod.splits sum.splits)
  show ?case using Cons.IH[OF rest] update_agent_idem[OF step] ys out by simp
qed

subsection \<open>The run\<close>

lemma update_agent_error:
  assumes "update_agent py_str fs agent = Inl e"
  shows "e = KeyError \<or> e = TypeError \<or> e = ReadError"
  using assms
  by (auto simp: update_agent_def extract_prompt_from_markdown_def open_read_def Let_def
      os_path_exists_def
      split: sum.splits if_splits option.splits fs_node.splits
      elim!: getitem.elims setitem.elims)

lemma update_agents_error:
  assumes "update_agents py_str fs xs = (Inl e, out)"
  shows "e = KeyError \<or> e = TypeError \<or> e = ReadError"
  using update_agents_Inl[OF assms] update_agent_error by blast

lemma run_array:
  assumes "catalog w = CatJSON (JArray xs)"
  shows "update_agents_json py_str w =
     (case update_agents py_str (files w) xs of
        (Inl e, out) \<Rightarrow> \<lparr>raised = Some e, printed = out, after = w\<rparr>
      | (Inr ys, out) \<Rightarrow>
          if \<not> writable w then \<lparr>raised = Some WriteError, printed = out, after = w\<rparr>
          else if dumpable (JArray ys) then
            \<lparr>raised = None, printed = out @ [success_line],
             after = w\<lparr>catalog := CatJSON (JArray ys)\<rparr>\<rparr>
          else
            \<lparr>raised = Some UnicodeEncodeError, printed = out,
             after = w\<lparr>catalog := CatNotJSON\<rparr>\<rparr>)"
  using assms
  by (auto simp: update_agents_json_def json_load_def agents_after_def
      split: sum.splits prod.splits)

lemma run_cases:
  obtains (load) e where "json_load (catalog w) = Inl e" "e \<noteq> UnicodeEncodeError"
      "update_agents_json py_str w = \<lparr>raised = Some e, printed = [], after = w\<rparr>"
  | (iter) agents where "catalog w = CatJSON agents" "iter agents = Inl TypeError"
      "update_agents_json py_str w = \<lparr>raised = Some TypeError, printed = [], after = w\<rparr>"
  | (loop) agents items e out where "catalog w = CatJSON agents" "iter agents = Inr items"
      "update_agents py_str (files w) items = (Inl e, out)" "e \<noteq> UnicodeEncodeError"
      "update_agents_json py_str w = \<lparr>raised = Some e, printed = out, after = w\<rparr>"
  | (locked) agents items items' out where "catalog w = CatJSON agents" "iter agents = Inr items"
      "update_agents py_str (files w) items = (Inr items', out)" "\<not> writable w"
      "update_agents_json py_str w = \<lparr>raised = Some WriteError, printed = out, after = w\<rparr>"
  | (written) agents items items' out where "catalog w = CatJSON agents" "iter agents = Inr items"
      "update_agents py_str (files w) items = (Inr items', out)" "writable w"
      "dumpable (agents_after agents items')"
      "update_agents_json py_str w =
         \<lparr>raised = None, printed = out @ [success_line],
          after = w\<lparr>catalog := CatJSON (agents_after agents items')\<rparr>\<rparr>"
  | (cut) agents items items' out where "catalog w = CatJSON agents" "iter agents = Inr items"
      "update_agents py_str (files w) items = (Inr items', out)" "writable w"
      "\<not> dumpable (agents_after agents items')"
      "update_agents_json py_str w =
         \<lparr>raised = Some UnicodeEncodeError, printed = out,
          after = w\<lparr>catalog := CatNotJSON\<rparr>\<rparr>"
proof (cases "json_load (catalog w)")
  case (Inl e)
  then have "e \<noteq> UnicodeEncodeError"
    by (auto simp: json_load_def split: catalog_file.splits)
  with Inl show ?thesis using load by (simp add: update_agents_json_def)
next
  case (Inr agents)
  then have c: "catalog w = CatJSON agents"
    by (auto simp: json_load_def split: catalog_file.splits)
  show ?thesis
  proof (cases "iter agents")
    case (Inl e)
    then have "e = TypeError" by (cases agents) auto
    with Inl Inr c show ?thesis using iter by (simp add: update_agents_json_def)
  next
    case it: (Inr items)
    obtain r out where l: "update_agents py_str (files w) items = (r, out)"
      by (cases "update_agents py_str (files w) items")
    show ?thesis
    proof (cases r)
      case (Inl e)
      with l update_agents_error[of py_str "files w" items e out]
      have "e \<noteq> UnicodeEncodeError" by auto
      with Inl l it Inr c show ?thesis using loop by (simp add: update_agents_json_def)
    next
      case r: (Inr items')
      show ?thesis
      proof (cases "writable w")
        case False
        with r l it Inr c show ?thesis using locked by (simp add: update_agents_json_def)
      next
        case True
        show ?thesis
        proof (cases "dumpable (agents_after agents items')")
          case d: True
          with True r l it Inr c show ?thesis
            using written by (simp add: update_agents_json_def)
        next
          case d: False
          with True r l it Inr c show ?thesis
            using cut by (simp add: update_agents_json_def)
        qed
      qed
    qed
  qed
qed


lemma run_cut_off:
  assumes "raised (update_agents_json py_str w) = Some UnicodeEncodeError"
  shows "after (update_agents_json py_str w) = w\<lparr>catalog := CatNotJSON\<rparr>"
  using assms by (cases rule: run_cases[of w py_str]) auto




lemma run_completed:
  assumes "catalog w = CatJSON (JArray xs)" "raised (update_agents_json py_str w) = None"
  shows "\<exists>ys out. update_agents py_str (files w) xs = (Inr ys, out) \<and> writable w \<and>
     dumpable (JArray ys) \<and>
     update_agents_json py_str w =
       \<lparr>raised = None, printed = out @ [success_line],
        after = w\<lparr>catalog := CatJSON (JArray ys)\<rparr>\<rparr>"
  using assms(2) unfolding run_array[OF assms(1)]
  by (auto split: sum.splits prod.splits if_splits)




lemma run_completes:
  assumes "catalog w = CatJSON (JArray xs)" "writable w"
    "update_agents py_str (files w) xs = (Inr ys, out)" "dumpable (JArray ys)"
  shows "update_agents_json py_str w =
     \<lparr>raised = None, printed = out @ [success_line],
      after = w\<lparr>catalog := CatJSON (JArray ys)\<rparr>\<rparr>"
  using assms(2,3,4) by (simp add: run_array[OF assms(1)])

subsection \<open>The examples\<close>

lemma md_file_alpha: "md_file py_str (JString (str ''alpha'')) = alpha_md"
  by (simp add: md_file_def os_path_join_def agents_dir_def format_value_def str_def alpha_md_def
      suffix_to_prefix)

lemma md_file_beta: "md_file py_str (JString (str ''beta'')) \<noteq> alpha_md"
  by (simp add: md_file_def os_path_join_def agents_dir_def format_value_def str_def alpha_md_def
      suffix_to_prefix)

lemma getitem_agent_record:
  "getitem (agent_record ident prompt) (str ''id'') = Inr (JString (str ident))"
  "getitem (agent_record ident prompt) (str ''prompt'') = Inr (JString (str prompt))"
  using id_neq_prompt by (auto simp: agent_record_def)


lemma files_ex_world: "files (ex_world agents content) alpha_md = Some (Text content)"
  "files (ex_world agents content) (md_file py_str (JString (str ''beta''))) = None"
  "catalog (ex_world agents content) = CatJSON agents"
  "writable (ex_world agents content)"
  using md_file_beta[of py_str] by (simp_all add: ex_world_def)

lemma delimited_hello:
  "delimited hello_md [] (str ''\<newline>title: x\<newline>'') (str ''\<newline>Hello world.\<newline>'')"
  by (simp add: delimited_def hello_md_def delimiter_eq str_def sublist_Cons_right)

lemma delimited_blank:
  "delimited blank_md [] (str ''\<newline>title: x\<newline>'') (str ''\<newline>'')"
  by (simp add: delimited_def blank_md_def delimiter_eq str_def sublist_Cons_right)

lemma delimited_three:
  "delimited three_md [] (str ''\<newline>t\<newline>'') (str ''\<newline>A\<newline>---\<newline>B\<newline>'')"
  by (simp add: delimited_def three_md_def delimiter_eq str_def sublist_Cons_right)

lemma delimited_junk:
  "delimited junk_md (str ''junk\<newline>'') (str ''\<newline>t\<newline>'') (str ''\<newline>Body\<newline>'')"
  by (simp add: delimited_def junk_md_def delimiter_eq str_def sublist_Cons_right)

lemma strip_examples:
  "str_strip (str ''\<newline>Hello world.\<newline>'') = str ''Hello world.''"
  "str_strip (str ''\<newline>'') = []"
  "str_strip (str ''\<newline>A\<newline>---\<newline>B\<newline>'') = str ''A\<newline>---\<newline>B''"
  "str_strip (str ''\<newline>Body\<newline>'') = str ''Body''"
  by (simp_all add: str_strip_def isspace_def str_def)


lemma update_alpha_hello:
  "update_agent no_str (files (ex_world agents hello_md)) (agent_record ''alpha'' ''old'') =
     Inr (agent_record ''alpha'' ''Hello world.'',
          updated_line no_str (JString (str ''alpha'')) (str ''Hello world.''))"
proof -
  let ?fs = "files (ex_world agents hello_md)"
  have f: "?fs (md_file no_str (JString (str ''alpha''))) = Some (Text hello_md)"
    by (simp add: md_file_alpha files_ex_world)
  have e: "extract_prompt_from_markdown ?fs (md_file no_str (JString (str ''alpha''))) =
      Inr (str ''Hello world.'')"
    using extract_delimited[where fs = ?fs, OF f delimited_hello] by (simp add: strip_examples)
  have n: "str ''Hello world.'' \<noteq> []" by (simp add: str_def)
  from update_agent_assign[where fs = ?fs, OF getitem_agent_record(1) f e n]
  show ?thesis using id_neq_prompt by (auto simp: agent_record_def)
qed

lemma update_alpha_ok:
  assumes "getitem agent (str ''id'') = Inr (JString (str ''alpha''))"
  shows "\<exists>r. update_agent no_str (files (ex_world agents hello_md)) agent = Inr r"
proof -
  let ?fs = "files (ex_world agents hello_md)"
  have f: "?fs (md_file no_str (JString (str ''alpha''))) = Some (Text hello_md)"
    by (simp add: md_file_alpha files_ex_world)
  have e: "extract_prompt_from_markdown ?fs (md_file no_str (JString (str ''alpha''))) =
      Inr (str ''Hello world.'')"
    using extract_delimited[where fs = ?fs, OF f delimited_hello] by (simp add: strip_examples)
  have n: "str ''Hello world.'' \<noteq> []" by (simp add: str_def)
  from update_agent_assign[where fs = ?fs, OF assms f e n] show ?thesis by blast
qed

lemma update_beta_ok:
  assumes "fs (md_file no_str (JString (str ''beta''))) = None"
  shows "update_agent no_str fs (agent_record ''beta'' prompt) =
     Inr (agent_record ''beta'' prompt, not_found_line no_str (JString (str ''beta'')))"
  using update_agent_not_found[where fs = fs, OF getitem_agent_record(1) assms] .

lemma getitem_surrogate_record:
  "getitem (surrogate_record ident) (str ''id'') = Inr (JString (str ident))"
  "getitem (surrogate_record ident) (str ''prompt'') = Inr (JString [55357])"
  using id_neq_prompt by (auto simp: surrogate_record_def)

lemma utf8_encodable_str: "utf8_encodable (str s)"
proof -
  have "\<not> surrogate (of_char c)" for c :: char
    using nat_of_char_less_256[of c] unfolding surrogate_def by linarith
  then show ?thesis by (simp add: utf8_encodable_def str_def list_all_iff)
qed

lemma dumpable_examples:
  "dumpable (agent_record ident prompt)" "dumpable (alpha_full prompt)"
  "\<not> dumpable (surrogate_record ident)"
  by (simp_all add: agent_record_def alpha_full_def surrogate_record_def utf8_encodable_str)
     (simp add: utf8_encodable_def surrogate_def)




lemma update_alpha_blank:
  assumes "getitem agent (str ''id'') = Inr (JString (str ''alpha''))"
  shows "update_agent no_str (files (ex_world agents blank_md)) agent =
     Inr (agent, no_content_line no_str (JString (str ''alpha'')))"
proof -
  let ?fs = "files (ex_world agents blank_md)"
  have f: "?fs (md_file no_str (JString (str ''alpha''))) = Some (Text blank_md)"
    by (simp add: md_file_alpha files_ex_world)
  have e: "extract_prompt_from_markdown ?fs (md_file no_str (JString (str ''alpha''))) = Inr []"
    using extract_delimited[where fs = ?fs, OF f delimited_blank] by (simp add: strip_examples)
  show ?thesis using update_agent_empty[where fs = ?fs, OF assms f e] .
qed

lemma update_beta_missing:
  assumes "getitem agent (str ''id'') = Inr (JString (str ''beta''))"
  shows "update_agent no_str (files (ex_world agents content)) agent =
     Inr (agent, not_found_line no_str (JString (str ''beta'')))"
    "update_agent no_str Map.empty agent =
     Inr (agent, not_found_line no_str (JString (str ''beta'')))"
  using update_agent_not_found[where fs = "files (ex_world agents content)", OF assms]
    update_agent_not_found[where fs = Map.empty, OF assms]
  by (simp_all add: files_ex_world)

text \<open>The runs of the examples, computed.\<close>

lemma run_ex_alpha:
  "update_agents_json no_str ex_alpha =
     \<lparr>raised = None,
      printed = [updated_line no_str (JString (str ''alpha'')) (str ''Hello world.''),
                 success_line],
      after = ex_alpha\<lparr>catalog := CatJSON (JArray [agent_record ''alpha'' ''Hello world.''])\<rparr>\<rparr>"
proof -
  have c: "catalog ex_alpha = CatJSON (JArray [agent_record ''alpha'' ''old''])"
    by (simp add: ex_alpha_def files_ex_world)
  have w: "writable ex_alpha" by (simp add: ex_alpha_def files_ex_world)
  have l: "update_agents no_str (files ex_alpha) [agent_record ''alpha'' ''old''] =
      (Inr [agent_record ''alpha'' ''Hello world.''],
       [updated_line no_str (JString (str ''alpha'')) (str ''Hello world.'')])"
    by (simp add: ex_alpha_def update_alpha_hello)
  show ?thesis using run_completes[OF c w l] by (simp add: dumpable_examples)
qed

lemma run_ex_blank:
  "update_agents_json no_str ex_blank =
     \<lparr>raised = None,
      printed = [no_content_line no_str (JString (str ''alpha'')), success_line],
      after = ex_blank\<lparr>catalog := CatJSON (JArray [agent_record ''alpha'' ''old''])\<rparr>\<rparr>"
proof -
  have c: "catalog ex_blank = CatJSON (JArray [agent_record ''alpha'' ''old''])"
    by (simp add: ex_blank_def files_ex_world)
  have w: "writable ex_blank" by (simp add: ex_blank_def files_ex_world)
  have l: "update_agents no_str (files ex_blank) [agent_record ''alpha'' ''old''] =
      (Inr [agent_record ''alpha'' ''old''], [no_content_line no_str (JString (str ''alpha''))])"
    by (simp add: ex_blank_def update_alpha_blank getitem_agent_record)
  show ?thesis using run_completes[OF c w l] by (simp add: dumpable_examples)
qed



lemma run_ex_surrogate:
  "update_agents_json no_str ex_surrogate =
     \<lparr>raised = Some UnicodeEncodeError,
      printed = [not_found_line no_str (JString (str ''beta''))],
      after = ex_surrogate\<lparr>catalog := CatNotJSON\<rparr>\<rparr>"
proof -
  have c: "catalog ex_surrogate = CatJSON (JArray [surrogate_record ''beta''])"
    by (simp add: ex_surrogate_def)
  have l: "update_agents no_str (files ex_surrogate) [surrogate_record ''beta''] =
      (Inr [surrogate_record ''beta''], [not_found_line no_str (JString (str ''beta''))])"
    by (simp add: ex_surrogate_def update_beta_missing getitem_surrogate_record)
  have w: "writable ex_surrogate" by (simp add: ex_surrogate_def)
  show ?thesis
    using w by (simp only: run_array[OF c] l) (simp add: dumpable_examples)
qed



section \<open>The claims\<close>

text \<open>
  Claim C1, as the code has it. Take a record with an \<^verbatim>\<open>id\<close> whose companion file has the
  delimiter at least twice, \<open>c\<close> being the text after the second occurrence, and let the text
  \<open>c\<close> be non-empty after stripping white space. After a run that ends normally the record's
  \<^verbatim>\<open>prompt\<close> in the catalog file is \<open>c\<close> with leading and trailing white space stripped.
\<close>

theorem prompt_is_stripped_body:
  assumes "catalog w = CatJSON (JArray xs)" "i < length xs"
    "getitem (xs ! i) (str ''id'') = Inr ident"
    "files w (md_file py_str ident) = Some (Text content)"
    "delimited content a b c" "str_strip c \<noteq> []"
    "raised (update_agents_json py_str w) = None"
  shows "\<exists>ys. catalog (after (update_agents_json py_str w)) = CatJSON (JArray ys) \<and>
     length ys = length xs \<and>
     getitem (ys ! i) (str ''prompt'') = Inr (JString (str_strip c))"
proof -
  from run_completed[OF assms(1,7)] obtain ys out where
    l: "update_agents py_str (files w) xs = (Inr ys, out)" and
    r: "update_agents_json py_str w = \<lparr>raised = None, printed = out @ [success_line],
          after = w\<lparr>catalog := CatJSON (JArray ys)\<rparr>\<rparr>" by blast
  from update_agents_Inr[OF l] assms(2) have
    len: "length ys = length xs" and
    step: "update_agent py_str (files w) (xs ! i) = Inr (ys ! i, out ! i)" by simp_all
  have ex: "extract_prompt_from_markdown (files w) (md_file py_str ident) = Inr (str_strip c)"
    using extract_delimited[where fs = "files w", OF assms(4,5)] .
  from update_agent_assign[where fs = "files w", OF assms(3,4) ex assms(6)] step
  obtain kvs where "ys ! i = JObject (AList.update (str ''prompt'') (JString (str_strip c)) kvs)"
    by auto
  then have "getitem (ys ! i) (str ''prompt'') = Inr (JString (str_strip c))"
    by (simp add: update_conv')
  then show ?thesis using r len by simp
qed

text \<open>The example of the specification: the prompt \<^verbatim>\<open>old\<close> becomes \<^verbatim>\<open>Hello world.\<close>\<close>

theorem prompt_is_stripped_body_witness:
  "raised (update_agents_json no_str ex_alpha) = None \<and>
   (\<exists>ys. catalog (after (update_agents_json no_str ex_alpha)) = CatJSON (JArray ys) \<and>
      length ys = 1 \<and> getitem (ys ! 0) (str ''prompt'') = Inr (JString (str ''Hello world.'')))"
proof -
  let ?xs = "[agent_record ''alpha'' ''old'']"
  have c: "catalog ex_alpha = CatJSON (JArray ?xs)" by (simp add: ex_alpha_def files_ex_world)
  have i: "0 < length ?xs" by simp
  have g: "getitem (?xs ! 0) (str ''id'') = Inr (JString (str ''alpha''))"
    by (simp add: getitem_agent_record)
  have f: "files ex_alpha (md_file no_str (JString (str ''alpha''))) = Some (Text hello_md)"
    by (simp add: ex_alpha_def md_file_alpha files_ex_world)
  have n: "str_strip (str ''\<newline>Hello world.\<newline>'') \<noteq> []"
    by (simp add: strip_examples) (simp add: str_def)
  have r: "raised (update_agents_json no_str ex_alpha) = None"
    by (simp add: run_ex_alpha)
  from prompt_is_stripped_body[OF c i g f delimited_hello n r] r
  show ?thesis by (simp add: strip_examples)
qed

text \<open>
  Claim C1 as it is stated asks only for non-empty text after the second occurrence. That fails
  for a companion file with nothing but a line break there: the text after the second occurrence
  is not empty, the run ends normally, and the \<^verbatim>\<open>prompt\<close> is still \<^verbatim>\<open>old\<close>, not the stripped
  text, which is empty.
\<close>

theorem whitespace_body_counterexample:
  "catalog ex_blank = CatJSON (JArray [agent_record ''alpha'' ''old'']) \<and>
   files ex_blank (md_file no_str (JString (str ''alpha''))) = Some (Text blank_md) \<and>
   delimited blank_md [] (str ''\<newline>title: x\<newline>'') (str ''\<newline>'') \<and>
   str ''\<newline>'' \<noteq> [] \<and>
   raised (update_agents_json no_str ex_blank) = None \<and>
   catalog (after (update_agents_json no_str ex_blank)) =
     CatJSON (JArray [agent_record ''alpha'' ''old'']) \<and>
   getitem (agent_record ''alpha'' ''old'') (str ''prompt'') = Inr (JString (str ''old'')) \<and>
   str ''old'' \<noteq> str_strip (str ''\<newline>'')"
proof -
  have c: "catalog ex_blank = CatJSON (JArray [agent_record ''alpha'' ''old''])"
    by (simp add: ex_blank_def files_ex_world)
  have f: "files ex_blank (md_file no_str (JString (str ''alpha''))) = Some (Text blank_md)"
    by (simp add: ex_blank_def md_file_alpha files_ex_world)
  have "str ''\<newline>'' \<noteq> []" "str ''old'' \<noteq> str_strip (str ''\<newline>'')"
    by (simp_all add: strip_examples) (simp_all add: str_def)
  then show ?thesis
    using c f delimited_blank by (simp add: run_ex_blank getitem_agent_record)
qed







text \<open>
  Claim C4 (idempotence). A second run on what the first run left, with the same companion
  files, leaves what the first run left: the catalog file after the second run is the catalog
  file after the first. (When \<^verbatim>\<open>json.dump\<close> failed in the first run, the second run fails to load
  the catalog and does not touch it.) Unless \<^verbatim>\<open>json.dump\<close> failed in the first run, the second
  run also ends as the first did and prints the same lines.
\<close>

theorem run_twice_same:
  "after (update_agents_json py_str (after (update_agents_json py_str w))) =
     after (update_agents_json py_str w) \<and>
   catalog (after (update_agents_json py_str (after (update_agents_json py_str w)))) =
     catalog (after (update_agents_json py_str w)) \<and>
   (raised (update_agents_json py_str w) \<noteq> Some UnicodeEncodeError \<longrightarrow>
      update_agents_json py_str (after (update_agents_json py_str w)) =
        update_agents_json py_str w)"
proof -
  let ?r = "update_agents_json py_str w"
  have same: "update_agents_json py_str (after ?r) = ?r"
    if nc: "raised ?r \<noteq> Some UnicodeEncodeError"
  proof (cases rule: run_cases[of w py_str])
    case (written agents items items' out)
    show ?thesis
    proof (cases "\<exists>xs. agents = JArray xs")
      case True
      then obtain xs where xs: "agents = JArray xs" by blast
      then have items: "items = xs" using written(2) by simp
      have l2: "update_agents py_str (files w) items' = (Inr items', out)"
        using update_agents_idem written(3) by blast
      let ?w' = "w\<lparr>catalog := CatJSON (JArray items')\<rparr>"
      have d: "dumpable (JArray items')" using written(5) xs by (simp add: agents_after_def)
      have "update_agents_json py_str ?w' =
          \<lparr>raised = None, printed = out @ [success_line], after = ?w'\<rparr>"
        using l2 written(4) d by (simp add: run_array[of ?w' items'])
      then show ?thesis using written(6) xs by (simp add: agents_after_def)
    next
      case False
      then have "agents_after agents items' = agents"
        by (cases agents) (auto simp: agents_after_def)
      then have "after ?r = w" using written(1,6) by simp
      then show ?thesis by simp
    qed
  qed (use nc in auto)
  have world: "after (update_agents_json py_str (after ?r)) = after ?r"
  proof (cases "raised ?r = Some UnicodeEncodeError")
    case True
    have "after ?r = w\<lparr>catalog := CatNotJSON\<rparr>" using run_cut_off[OF True] .
    then show ?thesis by (simp add: update_agents_json_def json_load_def)
  next
    case False
    then show ?thesis using same by simp
  qed
  show ?thesis using world same by simp
qed

text \<open>A second run after the first example, and after the run that leaves the catalog cut off.\<close>

theorem run_twice_same_witness:
  "raised (update_agents_json no_str ex_alpha) \<noteq> Some UnicodeEncodeError \<and>
   update_agents_json no_str (after (update_agents_json no_str ex_alpha)) =
     update_agents_json no_str ex_alpha \<and>
   catalog (after (update_agents_json no_str (after (update_agents_json no_str ex_alpha)))) =
     CatJSON (JArray [agent_record ''alpha'' ''Hello world.'']) \<and>
   catalog (after (update_agents_json no_str (after (update_agents_json no_str ex_surrogate)))) =
     CatNotJSON"
proof -
  have r: "raised (update_agents_json no_str ex_alpha) \<noteq> Some UnicodeEncodeError"
    by (simp add: run_ex_alpha)
  from run_twice_same[of no_str ex_alpha] r run_twice_same[of no_str ex_surrogate]
  show ?thesis by (simp add: run_ex_alpha run_ex_surrogate)
qed




text \<open>
  Claim C6. Without a catalog file the run ends with \<open>FileNotFoundError\<close>, with a catalog that
  is not JSON with \<open>JSONDecodeError\<close>. When the companion file of some record exists and cannot
  be read, the loop raises an exception (the \<open>ReadError\<close> of that record when no earlier record
  raised one) and the run ends with it. In each case the world after the run is the world
  before it: the catalog file is never opened for writing.
\<close>

theorem fatal_errors_leave_catalog:
  "(catalog w = CatMissing \<longrightarrow>
      update_agents_json py_str w = \<lparr>raised = Some FileNotFoundError, printed = [], after = w\<rparr>) \<and>
   (catalog w = CatNotJSON \<longrightarrow>
      update_agents_json py_str w = \<lparr>raised = Some JSONDecodeError, printed = [], after = w\<rparr>) \<and>
   (\<forall>xs i ident. catalog w = CatJSON (JArray xs) \<and> i < length xs \<and>
      getitem (xs ! i) (str ''id'') = Inr ident \<and>
      files w (md_file py_str ident) = Some Unreadable \<longrightarrow>
      (\<exists>e out. update_agents py_str (files w) xs = (Inl e, out) \<and>
         update_agents_json py_str w = \<lparr>raised = Some e, printed = out, after = w\<rparr> \<and>
         ((\<forall>j<i. \<exists>r. update_agent py_str (files w) (xs ! j) = Inr r) \<longrightarrow> e = ReadError)))"
proof (intro conjI allI impI)
  assume "catalog w = CatMissing"
  then show "update_agents_json py_str w =
      \<lparr>raised = Some FileNotFoundError, printed = [], after = w\<rparr>"
    by (simp add: update_agents_json_def json_load_def)
next
  assume "catalog w = CatNotJSON"
  then show "update_agents_json py_str w =
      \<lparr>raised = Some JSONDecodeError, printed = [], after = w\<rparr>"
    by (simp add: update_agents_json_def json_load_def)
next
  fix xs i ident
  assume h: "catalog w = CatJSON (JArray xs) \<and> i < length xs \<and>
      getitem (xs ! i) (str ''id'') = Inr ident \<and>
      files w (md_file py_str ident) = Some Unreadable"
  then have step: "update_agent py_str (files w) (xs ! i) = Inl ReadError"
    using update_agent_unreadable[where fs = "files w"] by blast
  from update_agents_raises[OF _ step] h obtain e out where
    l: "update_agents py_str (files w) xs = (Inl e, out)" and le: "length out \<le> i" by blast
  have r: "update_agents_json py_str w = \<lparr>raised = Some e, printed = out, after = w\<rparr>"
    using h l by (simp add: run_array)
  have "e = ReadError" if reach: "\<forall>j<i. \<exists>r. update_agent py_str (files w) (xs ! j) = Inr r"
  proof -
    from update_agents_Inl[OF l]
    have f: "update_agent py_str (files w) (xs ! length out) = Inl e" by simp
    have "length out = i"
    proof (rule ccontr)
      assume "length out \<noteq> i"
      then have "length out < i" using le by simp
      then show False using reach f by auto
    qed
    then show ?thesis using f step by simp
  qed
  then show "\<exists>e out. update_agents py_str (files w) xs = (Inl e, out) \<and>
         update_agents_json py_str w = \<lparr>raised = Some e, printed = out, after = w\<rparr> \<and>
         ((\<forall>j<i. \<exists>r. update_agent py_str (files w) (xs ! j) = Inr r) \<longrightarrow> e = ReadError)"
    using l r by blast
qed

text \<open>The three failures, one example each.\<close>

theorem fatal_errors_leave_catalog_witness:
  "update_agents_json no_str ex_missing =
     \<lparr>raised = Some FileNotFoundError, printed = [], after = ex_missing\<rparr> \<and>
   update_agents_json no_str ex_not_json =
     \<lparr>raised = Some JSONDecodeError, printed = [], after = ex_not_json\<rparr> \<and>
   (\<exists>out. update_agents_json no_str ex_unreadable =
      \<lparr>raised = Some ReadError, printed = out, after = ex_unreadable\<rparr>)"
proof -
  let ?xs = "[agent_record ''beta'' ''keep-me'', agent_record ''alpha'' ''old'']"
  have m: "catalog ex_missing = CatMissing" by (simp add: ex_missing_def)
  have n: "catalog ex_not_json = CatNotJSON" by (simp add: ex_not_json_def)
  have u: "catalog ex_unreadable = CatJSON (JArray ?xs) \<and> 1 < length ?xs \<and>
      getitem (?xs ! 1) (str ''id'') = Inr (JString (str ''alpha'')) \<and>
      files ex_unreadable (md_file no_str (JString (str ''alpha''))) = Some Unreadable"
    by (simp add: ex_unreadable_def getitem_agent_record md_file_alpha)
  have "files ex_unreadable (md_file no_str (JString (str ''beta''))) = None"
    using md_file_beta[of no_str] by (simp add: ex_unreadable_def)
  then have reach: "\<forall>j<1. \<exists>r. update_agent no_str (files ex_unreadable) (?xs ! j) = Inr r"
    by (simp add: update_beta_ok)
  have 1: "update_agents_json no_str ex_missing =
     \<lparr>raised = Some FileNotFoundError, printed = [], after = ex_missing\<rparr>"
    using fatal_errors_leave_catalog[of ex_missing no_str] m by blast
  have 2: "update_agents_json no_str ex_not_json =
     \<lparr>raised = Some JSONDecodeError, printed = [], after = ex_not_json\<rparr>"
    using fatal_errors_leave_catalog[of ex_not_json no_str] n by blast
  have 3: "\<exists>out. update_agents_json no_str ex_unreadable =
      \<lparr>raised = Some ReadError, printed = out, after = ex_unreadable\<rparr>"
    using fatal_errors_leave_catalog[of ex_unreadable no_str] u reach by blast
  show ?thesis using 1 2 3 by blast
qed

text \<open>
  Claim C7. When the delimiter occurs again in the text \<open>c\<close> after its second occurrence, the
  split still has the three parts \<open>a\<close>, \<open>b\<close>, \<open>c\<close>: the extracted body is \<open>c\<close> without the
  white space at its two ends, and the later occurrences are in it.
\<close>

theorem body_keeps_later_delimiters:
  assumes "fs p = Some (Text content)" "delimited content a b c" "sublist delimiter c"
  shows "str_split content delimiter 2 = [a, b, c] \<and>
     extract_prompt_from_markdown fs p = Inr (str_strip c) \<and>
     sublist delimiter (str_strip c) \<and>
     (\<exists>l r. c = l @ str_strip c @ r \<and> (\<forall>x\<in>set (l @ r). isspace x))"
proof -
  have ne: "delimiter \<noteq> []" by (simp add: delimiter_eq)
  have 1: "str_split content delimiter 2 = [a, b, c]"
    using assms(2) str_split_two[OF ne, of a b c] by (simp add: delimited_def)
  have 2: "extract_prompt_from_markdown fs p = Inr (str_strip c)"
    using extract_delimited[where fs = fs and p = p, OF assms(1,2)] .
  have "\<not> isspace (hd delimiter)" "\<not> isspace (last delimiter)"
    by (simp_all add: delimiter_eq isspace_def)
  then have 3: "sublist delimiter (str_strip c)"
    using str_strip_keeps_sublist[OF assms(3) ne] by simp
  have 4: "\<exists>l r. c = l @ str_strip c @ r \<and> (\<forall>x\<in>set (l @ r). isspace x)"
    using str_strip_decomp[of c] by auto
  show ?thesis using 1 2 3 4 by blast
qed

text \<open>A file with three delimiters.\<close>

theorem body_keeps_later_delimiters_witness:
  "sublist delimiter (str ''\<newline>A\<newline>---\<newline>B\<newline>'') \<and>
   extract_prompt_from_markdown (Map.empty(alpha_md \<mapsto> Text three_md)) alpha_md =
     Inr (str ''A\<newline>---\<newline>B'') \<and>
   sublist delimiter (str ''A\<newline>---\<newline>B'')"
proof -
  have f: "(Map.empty(alpha_md \<mapsto> Text three_md)) alpha_md = Some (Text three_md)" by simp
  have s: "sublist delimiter (str ''\<newline>A\<newline>---\<newline>B\<newline>'')"
    by (simp add: delimiter_eq str_def sublist_Cons_right)
  from body_keeps_later_delimiters[where fs = "Map.empty(alpha_md \<mapsto> Text three_md)",
      OF f delimited_three s] s
  show ?thesis by (simp add: strip_examples)
qed

text \<open>
  Claim C8. An iteration that does not raise either leaves the record as it is and prints a
  warning, or assigns \<^verbatim>\<open>prompt\<close>; the text it assigns is not empty, neither starts nor ends with
  white space, and stripping it changes nothing.
\<close>

theorem assigned_prompt_nonempty_stripped:
  assumes "update_agent py_str fs agent = Inr (agent', line)"
  shows "(agent' = agent \<and>
           (\<exists>ident. line = not_found_line py_str ident \<or> line = no_content_line py_str ident)) \<or>
         (\<exists>kvs ident body. agent = JObject kvs \<and>
            agent' = JObject (AList.update (str ''prompt'') (JString body) kvs) \<and>
            line = updated_line py_str ident body \<and>
            body \<noteq> [] \<and> \<not> isspace (hd body) \<and> \<not> isspace (last body) \<and>
            str_strip body = body)"
proof -
  consider ident where "agent' = agent"
      "line = not_found_line py_str ident \<or> line = no_content_line py_str ident"
    | kvs ident body where "agent = JObject kvs"
        "extract_prompt_from_markdown fs (md_file py_str ident) = Inr body" "body \<noteq> []"
        "agent' = JObject (AList.update (str ''prompt'') (JString body) kvs)"
        "line = updated_line py_str ident body"
    using update_agent_cases[OF assms] by blast
  then show ?thesis
  proof cases
    case 1
    then show ?thesis by blast
  next
    case (2 kvs ident body)
    from extract_stripped[OF 2(2,3)]
    have e: "\<not> isspace (hd body)" "\<not> isspace (last body)" by simp_all
    then have "str_strip body = body" by (rule str_strip_fixed)
    with 2 e show ?thesis by blast
  qed
qed

text \<open>The assignment of the first example.\<close>

theorem assigned_prompt_nonempty_stripped_witness:
  "update_agent no_str (files ex_alpha) (agent_record ''alpha'' ''old'') =
     Inr (agent_record ''alpha'' ''Hello world.'',
          updated_line no_str (JString (str ''alpha'')) (str ''Hello world.'')) \<and>
   (\<exists>kvs ident body.
      agent_record ''alpha'' ''old'' = JObject kvs \<and>
      agent_record ''alpha'' ''Hello world.'' =
        JObject (AList.update (str ''prompt'') (JString body) kvs) \<and>
      updated_line no_str (JString (str ''alpha'')) (str ''Hello world.'') =
        updated_line no_str ident body \<and>
      body \<noteq> [] \<and> \<not> isspace (hd body) \<and> \<not> isspace (last body) \<and> str_strip body = body)"
proof -
  have step: "update_agent no_str (files ex_alpha) (agent_record ''alpha'' ''old'') =
     Inr (agent_record ''alpha'' ''Hello world.'',
          updated_line no_str (JString (str ''alpha'')) (str ''Hello world.''))"
    unfolding ex_alpha_def by (rule update_alpha_hello)
  have ne: "agent_record ''alpha'' ''Hello world.'' \<noteq> agent_record ''alpha'' ''old''"
    by (simp add: agent_record_def) (simp add: str_def)
  from assigned_prompt_nonempty_stripped[OF step] ne step
  show ?thesis by blast
qed

text \<open>
  Claim C9. When an element of the catalog array is a record without \<^verbatim>\<open>id\<close>, or no record at
  all, the loop raises an exception and the run ends with it, the world unchanged: the
  exception is not the one of opening the catalog for writing, which is never reached. When
  no earlier element raises, the exception is the \<open>KeyError\<close> or \<open>TypeError\<close> of that element.
\<close>

theorem record_without_id_aborts:
  assumes "catalog w = CatJSON (JArray xs)" "i < length xs"
    "\<forall>kvs. xs ! i = JObject kvs \<longrightarrow> map_of kvs (str ''id'') = None"
  shows "\<exists>e out. update_agents py_str (files w) xs = (Inl e, out) \<and>
     update_agents_json py_str w = \<lparr>raised = Some e, printed = out, after = w\<rparr> \<and>
     e \<noteq> WriteError \<and>
     ((\<forall>j<i. \<exists>r. update_agent py_str (files w) (xs ! j) = Inr r) \<longrightarrow>
        (e = KeyError \<or> e = TypeError) \<and> length out = i)"
proof -
  have g: "getitem (xs ! i) (str ''id'') = Inl KeyError \<or>
           getitem (xs ! i) (str ''id'') = Inl TypeError"
    using assms(3) by (cases "xs ! i") auto
  then obtain e0 where e0: "getitem (xs ! i) (str ''id'') = Inl e0" "e0 = KeyError \<or> e0 = TypeError"
    by blast
  have step: "update_agent py_str (files w) (xs ! i) = Inl e0"
    using update_agent_no_id[OF e0(1)] .
  from update_agents_raises[OF assms(2) step] obtain e out where
    l: "update_agents py_str (files w) xs = (Inl e, out)" and le: "length out \<le> i" by blast
  have r: "update_agents_json py_str w = \<lparr>raised = Some e, printed = out, after = w\<rparr>"
    using assms(1) l by (simp add: run_array)
  from update_agents_Inl[OF l]
  have f: "update_agent py_str (files w) (xs ! length out) = Inl e" by simp
  have nw: "e \<noteq> WriteError"
    using f
    by (auto simp: update_agent_def extract_prompt_from_markdown_def open_read_def Let_def
        split: sum.splits if_splits option.splits fs_node.splits json.splits
        elim!: getitem.elims setitem.elims)
  have "(e = KeyError \<or> e = TypeError) \<and> length out = i"
    if reach: "\<forall>j<i. \<exists>r. update_agent py_str (files w) (xs ! j) = Inr r"
  proof -
    have "length out = i"
    proof (rule ccontr)
      assume "length out \<noteq> i"
      then have "length out < i" using le by simp
      then show False using reach f by auto
    qed
    then show ?thesis using f step e0(2) by auto
  qed
  then show ?thesis using l r nw by blast
qed

text \<open>A record without \<^verbatim>\<open>id\<close> behind a good one, and a string in place of a record.\<close>

theorem record_without_id_aborts_witness:
  "(\<exists>e out. update_agents_json no_str ex_no_id =
      \<lparr>raised = Some e, printed = out, after = ex_no_id\<rparr> \<and>
      (e = KeyError \<or> e = TypeError) \<and> length out = 1) \<and>
   (\<exists>e out. update_agents_json no_str ex_no_record =
      \<lparr>raised = Some e, printed = out, after = ex_no_record\<rparr> \<and>
      (e = KeyError \<or> e = TypeError) \<and> length out = 0)"
proof -
  let ?xs = "[agent_record ''alpha'' ''old'', JObject [(str ''prompt'', JString (str ''x''))]]"
  have c: "catalog ex_no_id = CatJSON (JArray ?xs)" by (simp add: ex_no_id_def files_ex_world)
  have i: "1 < length ?xs" by simp
  have g: "\<forall>kvs. ?xs ! 1 = JObject kvs \<longrightarrow> map_of kvs (str ''id'') = None"
    using id_neq_prompt by auto
  have "\<exists>r. update_agent no_str (files ex_no_id) (agent_record ''alpha'' ''old'') = Inr r"
    unfolding ex_no_id_def by (rule update_alpha_ok[OF getitem_agent_record(1)])
  then have reach: "\<forall>j<1. \<exists>r. update_agent no_str (files ex_no_id) (?xs ! j) = Inr r"
    by simp
  let ?ys = "[JString (str ''alpha'')]"
  have c': "catalog ex_no_record = CatJSON (JArray ?ys)"
    by (simp add: ex_no_record_def files_ex_world)
  have i': "0 < length ?ys" by simp
  have g': "\<forall>kvs. ?ys ! 0 = JObject kvs \<longrightarrow> map_of kvs (str ''id'') = None" by simp
  from record_without_id_aborts[OF c i g, of no_str] reach
    record_without_id_aborts[OF c' i' g', of no_str]
  show ?thesis by auto
qed

text \<open>
  Claim C10. The text \<open>a\<close> before the first occurrence of the delimiter has no influence: the
  extracted body is the stripped text \<open>c\<close> after the second occurrence, as it is for the file
  that starts with the delimiter, and when it is not empty the iteration assigns it to
  \<^verbatim>\<open>prompt\<close>.
\<close>

theorem text_before_first_delimiter_discarded:
  assumes "getitem agent (str ''id'') = Inr ident"
    "fs (md_file py_str ident) = Some (Text content)"
    "delimited content a b c"
  shows "extract_prompt_from_markdown fs (md_file py_str ident) = Inr (str_strip c) \<and>
     extract_prompt_from_markdown (fs(p \<mapsto> Text (delimiter @ b @ delimiter @ c))) p =
       Inr (str_strip c) \<and>
     (str_strip c \<noteq> [] \<longrightarrow>
        (\<exists>kvs. agent = JObject kvs \<and>
           update_agent py_str fs agent =
             Inr (JObject (AList.update (str ''prompt'') (JString (str_strip c)) kvs),
                  updated_line py_str ident (str_strip c))))"
proof -
  have 1: "extract_prompt_from_markdown fs (md_file py_str ident) = Inr (str_strip c)"
    using extract_delimited[where fs = fs, OF assms(2,3)] .
  have "\<not> sublist delimiter ([] @ butlast delimiter)"
    by (simp add: delimiter_eq sublist_Cons_right)
  then have d: "delimited (delimiter @ b @ delimiter @ c) [] b c"
    using assms(3) by (simp add: delimited_def)
  have 2: "extract_prompt_from_markdown (fs(p \<mapsto> Text (delimiter @ b @ delimiter @ c))) p =
       Inr (str_strip c)"
    by (rule extract_delimited[where content = "delimiter @ b @ delimiter @ c", OF _ d]) simp
  have 3: "\<exists>kvs. agent = JObject kvs \<and>
           update_agent py_str fs agent =
             Inr (JObject (AList.update (str ''prompt'') (JString (str_strip c)) kvs),
                  updated_line py_str ident (str_strip c))" if "str_strip c \<noteq> []"
    using update_agent_assign[where fs = fs, OF assms(1,2) 1 that] .
  show ?thesis using 1 2 3 by blast
qed

text \<open>A file with a line before the frontmatter.\<close>

theorem text_before_first_delimiter_discarded_witness:
  "delimited junk_md (str ''junk\<newline>'') (str ''\<newline>t\<newline>'') (str ''\<newline>Body\<newline>'') \<and>
   extract_prompt_from_markdown (Map.empty(alpha_md \<mapsto> Text junk_md)) alpha_md =
     Inr (str ''Body'') \<and>
   update_agent no_str (Map.empty(alpha_md \<mapsto> Text junk_md)) (agent_record ''alpha'' ''old'') =
     Inr (agent_record ''alpha'' ''Body'',
          updated_line no_str (JString (str ''alpha'')) (str ''Body''))"
proof -
  let ?fs = "Map.empty(alpha_md \<mapsto> Text junk_md)"
  have f: "?fs (md_file no_str (JString (str ''alpha''))) = Some (Text junk_md)"
    by (simp add: md_file_alpha)
  have n: "str ''Body'' \<noteq> []" by (simp add: str_def)
  from text_before_first_delimiter_discarded[where fs = ?fs and p = alpha_md,
      OF getitem_agent_record(1) f delimited_junk] n delimited_junk id_neq_prompt
  show ?thesis by (auto simp: strip_examples md_file_alpha agent_record_def)
qed

end
